theory Spec2Isabelle
  imports Main
begin

section \<open>Python strings\<close>

text \<open>
  A Python \<^verbatim>\<open>str\<close> is the list of its Unicode code points. Which code points the
  pattern \<^verbatim>\<open>\w\<close> matches, which ones \<^verbatim>\<open>str.strip\<close> takes for white space and what
  \<^verbatim>\<open>str.lower\<close> returns are tables of the Python runtime, not of this repository: they
  are a parameter of every function that uses them, and the theorems hold for every
  value of it (some under a stated fact of Python's tables).
\<close>

type_synonym codepoint = nat

type_synonym pystr = "codepoint list"

record tables =
  is_word :: "codepoint \<Rightarrow> bool"
  is_space :: "codepoint \<Rightarrow> bool"
  lower :: "pystr \<Rightarrow> pystr"

text \<open>A string literal of the program (ASCII), as code points.\<close>

definition str :: "string \<Rightarrow> pystr" where
  "str s = map of_char s"

text \<open>\<^verbatim>\<open>s.strip()\<close>: white space removed at both ends.\<close>

definition strip :: "tables \<Rightarrow> pystr \<Rightarrow> pystr" where
  "strip U s = rev (dropWhile (is_space U) (rev (dropWhile (is_space U) s)))"

text \<open>
  \<^verbatim>\<open>re.findall(r"\w+", s)\<close>: the maximal runs of word characters, left to right.
  The second argument is the run being read.
\<close>

fun word_runs :: "tables \<Rightarrow> pystr \<Rightarrow> pystr \<Rightarrow> pystr list" where
  "word_runs U cur [] = (if cur = [] then [] else [cur])"
| "word_runs U cur (c # cs) =
     (if is_word U c then word_runs U (cur @ [c]) cs
      else (if cur = [] then [] else [cur]) @ word_runs U [] cs)"

definition findall_words :: "tables \<Rightarrow> pystr \<Rightarrow> pystr list" where
  "findall_words U s = word_runs U [] s"

text \<open>
  \<^verbatim>\<open>text.count(word)\<close>: the number of non-overlapping occurrences of \<open>word\<close> in
  \<open>text\<close>, found from the left; after a match the search goes on behind it. The empty
  word is found between every two characters and at both ends.
\<close>

fun count_from :: "pystr \<Rightarrow> pystr \<Rightarrow> nat" where
  "count_from [] w = 0"
| "count_from (c # cs) w =
     (if w \<noteq> [] \<and> take (length w) (c # cs) = w
      then Suc (count_from (drop (length w) (c # cs)) w)
      else count_from cs w)"

definition str_count :: "pystr \<Rightarrow> pystr \<Rightarrow> nat" where
  "str_count text w = (if w = [] then length text + 1 else count_from text w)"

text \<open>\<^verbatim>\<open>str(n)\<close> for an integer: its decimal digits, with a minus sign below zero.\<close>

fun show_nat :: "nat \<Rightarrow> pystr" where
  "show_nat n = (if n < 10 then [48 + n] else show_nat (n div 10) @ [48 + n mod 10])"

declare show_nat.simps [simp del]

definition show_int :: "int \<Rightarrow> pystr" where
  "show_int i = (if i < 0 then 45 # show_nat (nat (- i)) else show_nat (nat i))"

section \<open>Records of the dataset\<close>

text \<open>
  A record is a Python dict read from the dataset file: the list of its items, a key
  looked up at its first item. A field holds text or an integer.
\<close>

datatype fieldval = Text pystr | Number int

type_synonym passage = "(pystr \<times> fieldval) list"

datatype py_error = KeyError pystr | AttributeError pystr | JSONDecodeError

text \<open>\<^verbatim>\<open>rec.get(key, default)\<close> and \<^verbatim>\<open>rec[key]\<close>.\<close>

definition dict_get :: "passage \<Rightarrow> pystr \<Rightarrow> fieldval \<Rightarrow> fieldval" where
  "dict_get rec key dflt = (case map_of rec key of None \<Rightarrow> dflt | Some v \<Rightarrow> v)"

definition getitem :: "passage \<Rightarrow> pystr \<Rightarrow> py_error + fieldval" where
  "getitem rec key = (case map_of rec key of None \<Rightarrow> Inl (KeyError key) | Some v \<Rightarrow> Inr v)"

text \<open>A value interpolated in an f-string.\<close>

fun fmt :: "fieldval \<Rightarrow> pystr" where
  "fmt (Text s) = s"
| "fmt (Number i) = show_int i"

section \<open>The dataset loader\<close>

text \<open>
  What the loader finds at \<^verbatim>\<open>DATA_PATH\<close>: no file, a file holding a list of records,
  or a file that is not JSON.
\<close>

datatype data_file = FileMissing | FileContent "passage list" | FileMalformed

definition load_data :: "data_file \<Rightarrow> py_error + passage list" where
  "load_data f =
     (case f of
        FileMissing \<Rightarrow> Inr []
      | FileContent recs \<Rightarrow> Inr recs
      | FileMalformed \<Rightarrow> Inl JSONDecodeError)"

section \<open>The matcher\<close>

definition comparison_text :: "tables \<Rightarrow> passage \<Rightarrow> pystr" where
  "comparison_text U rec =
     lower U (fmt (dict_get rec (str ''translation'') (Text (str ''''))) @ str '' ''
              @ fmt (dict_get rec (str ''purport'') (Text (str ''''))))"

definition record_score :: "tables \<Rightarrow> pystr list \<Rightarrow> passage \<Rightarrow> nat" where
  "record_score U words rec = sum_list (map (str_count (comparison_text U rec)) words)"

text \<open>The loop over \<^verbatim>\<open>DATA\<close>; the state is \<open>(best_record, best_score)\<close>.\<close>

fun scan_records ::
  "tables \<Rightarrow> pystr list \<Rightarrow> passage list \<Rightarrow> passage option \<times> nat \<Rightarrow> passage option \<times> nat" where
  "scan_records U words [] st = st"
| "scan_records U words (rec # rest) (best_record, best_score) =
     (let score = record_score U words rec
      in if score > best_score then scan_records U words rest (Some rec, score)
         else scan_records U words rest (best_record, best_score))"

definition search_passage :: "tables \<Rightarrow> passage list \<Rightarrow> pystr \<Rightarrow> passage option" where
  "search_passage U DATA query =
     (let words = findall_words U (lower U query)
      in if words = [] then None else fst (scan_records U words DATA (None, 0)))"

section \<open>The request handler\<close>

datatype json = JNull | JBool bool | JNum int | JStr pystr | JArr "json list"
  | JObj "(pystr \<times> json) list"

fun truthy :: "json \<Rightarrow> bool" where
  "truthy JNull = False"
| "truthy (JBool b) = b"
| "truthy (JNum n) = (n \<noteq> 0)"
| "truthy (JStr s) = (s \<noteq> [])"
| "truthy (JArr xs) = (xs \<noteq> [])"
| "truthy (JObj d) = (d \<noteq> [])"

text \<open>\<^verbatim>\<open>data.get(key, default)\<close> exists on a dict only, \<^verbatim>\<open>.strip()\<close> on a string only.\<close>

fun py_get :: "json \<Rightarrow> pystr \<Rightarrow> json \<Rightarrow> py_error + json" where
  "py_get (JObj d) key dflt = Inr (case map_of d key of None \<Rightarrow> dflt | Some v \<Rightarrow> v)"
| "py_get _ key dflt = Inl (AttributeError (str ''get''))"

fun py_strip :: "tables \<Rightarrow> json \<Rightarrow> py_error + pystr" where
  "py_strip U (JStr s) = Inr (strip U s)"
| "py_strip U _ = Inl (AttributeError (str ''strip''))"

text \<open>The en dash of the citation is the code point U+2013, a line feed is 10.\<close>

definition en_dash :: pystr where
  "en_dash = [8211]"

definition closing :: pystr where
  "closing = str ''Chant Hare Krishna and be happy.''"

definition apology :: pystr where
  "apology = str ''This information is not available in the provided texts. Chant Hare Krishna and be happy.''"

definition format_answer :: "passage \<Rightarrow> py_error + pystr" where
  "format_answer rec =
     (case getitem rec (str ''translation'') of Inl e \<Rightarrow> Inl e | Inr translation \<Rightarrow>
     (case getitem rec (str ''purport'') of Inl e \<Rightarrow> Inl e | Inr purport \<Rightarrow>
     (case getitem rec (str ''book'') of Inl e \<Rightarrow> Inl e | Inr book \<Rightarrow>
     (case getitem rec (str ''chapter'') of Inl e \<Rightarrow> Inl e | Inr chapter \<Rightarrow>
     (case getitem rec (str ''verse'') of Inl e \<Rightarrow> Inl e | Inr verse \<Rightarrow>
     (case getitem rec (str ''author'') of Inl e \<Rightarrow> Inl e | Inr author \<Rightarrow>
        Inr (fmt translation @ [10, 10]
             @ fmt purport @ [10, 10]
             @ str ''('' @ fmt book @ str '', Chapter '' @ fmt chapter
             @ str '', Verse '' @ fmt verse @ str '') ''
             @ en_dash @ str '' '' @ fmt author @ str ''. ''
             @ closing)))))))"

text \<open>
  The body is what \<^verbatim>\<open>request.get_json(silent=True)\<close> returns: \<open>None\<close> for a missing or
  unparsable body, the parsed value otherwise (\<open>JObj\<close> holds the items of the parsed
  dict, \<open>JNum\<close> an integer). A record is truthy when it has an item.
\<close>

definition ask :: "tables \<Rightarrow> passage list \<Rightarrow> json option \<Rightarrow> py_error + pystr" where
  "ask U DATA body =
     (let data = (case body of None \<Rightarrow> JObj [] | Some j \<Rightarrow> if truthy j then j else JObj [])
      in (case py_get data (str ''question'') (JStr (str '''')) of Inl e \<Rightarrow> Inl e | Inr qv \<Rightarrow>
         (case py_strip U qv of Inl e \<Rightarrow> Inl e | Inr question \<Rightarrow>
           (case search_passage U DATA question of
              None \<Rightarrow> Inr apology
            | Some rec \<Rightarrow> if rec \<noteq> [] then format_answer rec else Inr apology))))"

section \<open>The tables on ASCII text\<close>

text \<open>
  On text whose code points are all below 128, Python's tables are these: \<^verbatim>\<open>\w\<close> matches
  the letters, the digits and the underscore, white space is 9 to 13 and 28 to 32, and
  \<^verbatim>\<open>lower\<close> adds 32 to the capital letters. They serve to run the model on examples
  written in ASCII.
\<close>

definition ascii_word :: "codepoint \<Rightarrow> bool" where
  "ascii_word c = ((48 \<le> c \<and> c \<le> 57) \<or> (65 \<le> c \<and> c \<le> 90) \<or> c = 95 \<or> (97 \<le> c \<and> c \<le> 122))"

definition ascii_space :: "codepoint \<Rightarrow> bool" where
  "ascii_space c = ((9 \<le> c \<and> c \<le> 13) \<or> (28 \<le> c \<and> c \<le> 32))"

definition ascii_lower :: "codepoint \<Rightarrow> codepoint" where
  "ascii_lower c = (if 65 \<le> c \<and> c \<le> 90 then c + 32 else c)"

definition ascii_tables :: tables where
  "ascii_tables = \<lparr>is_word = ascii_word, is_space = ascii_space, lower = map ascii_lower\<rparr>"

text \<open>
  The same tables with four more letters: e with acute (233) and n, r, s with dot below
  (7751, 7771, 7779). \<^verbatim>\<open>\w\<close> matches them and each is its own lowercase. They serve to
  run the model on a name written with diacritics.
\<close>

definition latin_word :: "codepoint \<Rightarrow> bool" where
  "latin_word c = (ascii_word c \<or> c = 233 \<or> c = 7751 \<or> c = 7771 \<or> c = 7779)"

definition latin_tables :: tables where
  "latin_tables = \<lparr>is_word = latin_word, is_space = ascii_space, lower = map ascii_lower\<rparr>"

section \<open>Facts about the string operations\<close>

lemma str_eq_iff [simp]: "str a = str b \<longleftrightarrow> a = b"
  by (simp add: str_def inj_map_eq_map inj_on_def)

lemma str_space: "str '' '' = [32]"
  by (simp add: str_def)

lemma str_empty [simp]: "str [] = []"
  by (simp add: str_def)

lemma word_runs_words:
  "w \<in> set (word_runs U cur s) \<Longrightarrow> \<forall>c\<in>set cur. is_word U c
     \<Longrightarrow> w \<noteq> [] \<and> (\<forall>c\<in>set w. is_word U c)"
  by (induction U cur s rule: word_runs.induct) (auto split: if_splits)

lemma word_runs_Nil_iff:
  "word_runs U cur s = [] \<longleftrightarrow> cur = [] \<and> (\<forall>c\<in>set s. \<not> is_word U c)"
  by (induction U cur s rule: word_runs.induct) auto

lemma findall_words_word:
  "w \<in> set (findall_words U s) \<Longrightarrow> w \<noteq> [] \<and> (\<forall>c\<in>set w. is_word U c)"
  using word_runs_words [of w U "[]" s] by (auto simp: findall_words_def)

lemma findall_words_no_word:
  "\<forall>c\<in>set s. \<not> is_word U c \<Longrightarrow> findall_words U s = []"
  by (simp add: findall_words_def word_runs_Nil_iff)

lemma strip_subset: "set (strip U s) \<subseteq> set s"
proof -
  have "set (strip U s) \<subseteq> set (dropWhile (is_space U) s)"
    unfolding strip_def using set_dropWhileD by fastforce
  also have "\<dots> \<subseteq> set s"
    using set_dropWhileD by fastforce
  finally show ?thesis .
qed

lemma count_from_sep:
  "w \<noteq> [] \<Longrightarrow> sp \<notin> set w \<Longrightarrow> count_from (a @ sp # b) w = count_from a w + count_from b w"
proof (induction a w rule: count_from.induct)
  case (1 w)
  then obtain x xs where w: "w = x # xs" by (cases w) auto
  with 1 have "x \<noteq> sp" by auto
  with w show ?case by auto
next
  case (2 c cs w)
  show ?case
  proof (cases "take (length w) (c # cs) = w")
    case True
    have "length (take (length w) (c # cs)) \<le> length (c # cs)"
      by simp
    then have len: "length w \<le> length (c # cs)"
      unfolding True .
    have tk: "take (length w) (c # (cs @ sp # b)) = w"
      using True len take_append [of "length w" "c # cs" "sp # b"] by simp
    have dr: "drop (length w) (c # (cs @ sp # b)) = drop (length w) (c # cs) @ sp # b"
      using len drop_append [of "length w" "c # cs" "sp # b"] by simp
    from True 2 have "count_from (drop (length w) (c # cs) @ sp # b) w =
        count_from (drop (length w) (c # cs)) w + count_from b w"
      by simp
    with True 2 tk dr show ?thesis by simp
  next
    case False
    have "take (length w) (c # (cs @ sp # b)) \<noteq> w"
    proof (cases "length w \<le> length (c # cs)")
      case True
      then have "take (length w) (c # (cs @ sp # b)) = take (length w) (c # cs)"
        using take_append [of "length w" "c # cs" "sp # b"] by simp
      with False show ?thesis by simp
    next
      case F: False
      then obtain k where k: "length w - length (c # cs) = Suc k"
        by (cases "length w - length (c # cs)") auto
      have "take (length w) ((c # cs) @ sp # b) = take (length w) (c # cs) @ sp # take k b"
        by (simp only: take_append k take_Suc_Cons)
      then have "sp \<in> set (take (length w) (c # (cs @ sp # b)))"
        by simp
      with "2.prems" show ?thesis by auto
    qed
    with False 2 show ?thesis by simp
  qed
qed

lemma str_count_sep:
  "w \<noteq> [] \<Longrightarrow> sp \<notin> set w \<Longrightarrow> str_count (a @ sp # b) w = str_count a w + str_count b w"
  by (simp add: str_count_def count_from_sep)

lemma count_from_absent:
  "\<not> (\<exists>a b. s = a @ w @ b) \<Longrightarrow> count_from s w = 0"
proof (induction s w rule: count_from.induct)
  case (1 w)
  show ?case by simp
next
  case (2 c cs w)
  have no: "take (length w) (c # cs) \<noteq> w"
  proof
    assume "take (length w) (c # cs) = w"
    then have "c # cs = [] @ w @ drop (length w) (c # cs)"
      using append_take_drop_id [of "length w" "c # cs"] by simp
    with "2.prems" show False by blast
  qed
  have "\<not> (\<exists>a b. cs = a @ w @ b)"
  proof
    assume "\<exists>a b. cs = a @ w @ b"
    then obtain a b where "cs = a @ w @ b" by blast
    then have "c # cs = (c # a) @ w @ b" by simp
    with "2.prems" show False by blast
  qed
  with no 2 show ?case by simp
qed

lemma count_from_first:
  assumes "w \<noteq> []"
    and "\<forall>a' b'. a @ w @ b = a' @ w @ b' \<longrightarrow> length a \<le> length a'"
  shows "count_from (a @ w @ b) w = Suc (count_from b w)"
  using assms(2)
proof (induction a)
  case Nil
  from assms(1) obtain x xs where w: "w = x # xs" by (cases w) auto
  then show ?case by simp
next
  case (Cons x a)
  have no: "take (length w) (x # (a @ w @ b)) \<noteq> w"
  proof
    assume "take (length w) (x # (a @ w @ b)) = w"
    then have "(x # a) @ w @ b = [] @ w @ drop (length w) (x # (a @ w @ b))"
      using append_take_drop_id [of "length w" "x # (a @ w @ b)"] by simp
    with Cons.prems have "length (x # a) \<le> length ([] :: pystr)" by blast
    then show False by simp
  qed
  have "\<forall>a' b'. a @ w @ b = a' @ w @ b' \<longrightarrow> length a \<le> length a'"
  proof (intro allI impI)
    fix a' b' assume "a @ w @ b = a' @ w @ b'"
    then have "(x # a) @ w @ b = (x # a') @ w @ b'" by simp
    with Cons.prems have "length (x # a) \<le> length (x # a')" by blast
    then show "length a \<le> length a'" by simp
  qed
  from Cons.IH [OF this] no show ?case by simp
qed

lemma sum_list_pos_elem:
  "0 < sum_list (map f xs) \<Longrightarrow> \<exists>x\<in>set xs. 0 < (f x :: nat)"
  by (induction xs) auto

lemma ascii_word_lower: "ascii_word (ascii_lower c) = ascii_word c"
  by (auto simp: ascii_word_def ascii_lower_def)

section \<open>Facts about the scan over the dataset\<close>

lemma scan_records_append:
  "scan_records U ws (xs @ ys) st = scan_records U ws ys (scan_records U ws xs st)"
proof (induction xs arbitrary: st)
  case Nil
  show ?case by simp
next
  case (Cons x xs)
  obtain b s where "st = (b, s)" by (cases st)
  with Cons show ?case by (simp add: Let_def)
qed

lemma scan_records_keep:
  "\<forall>r\<in>set xs. record_score U ws r \<le> s \<Longrightarrow> scan_records U ws xs (b, s) = (b, s)"
  by (induction xs) (auto simp: Let_def)

lemma scan_records_below:
  "s < m \<Longrightarrow> \<forall>r\<in>set xs. record_score U ws r < m
     \<Longrightarrow> snd (scan_records U ws xs (b, s)) < m"
  by (induction xs arbitrary: b s) (auto simp: Let_def)

lemma scan_records_Some:
  "fst (scan_records U ws xs (b, s)) = Some r
     \<Longrightarrow> b = Some r \<or> (r \<in> set xs \<and> s < record_score U ws r)"
proof (induction xs arbitrary: b s)
  case Nil
  then show ?case by simp
next
  case (Cons x xs)
  show ?case
  proof (cases "s < record_score U ws x")
    case True
    with Cons.prems have "fst (scan_records U ws xs (Some x, record_score U ws x)) = Some r"
      by (simp add: Let_def)
    from Cons.IH [OF this] True show ?thesis by auto
  next
    case False
    with Cons.prems have "fst (scan_records U ws xs (b, s)) = Some r"
      by (simp add: Let_def)
    from Cons.IH [OF this] show ?thesis by auto
  qed
qed

lemma scan_records_scale:
  "\<forall>r. record_score U ws' r = k * record_score U ws r \<Longrightarrow> 0 < k \<Longrightarrow>
   fst (scan_records U ws' xs (b, k * s)) = fst (scan_records U ws xs (b, s))"
  by (induction xs arbitrary: b s) (auto simp: Let_def)

lemma record_score_replicate:
  "record_score U (replicate k w) r = k * record_score U [w] r"
  by (induction k) (auto simp: record_score_def)

lemma scan_records_pick:
  assumes pos: "0 < record_score U ws r"
    and before: "\<forall>x\<in>set pre. record_score U ws x < record_score U ws r"
    and after: "\<forall>x\<in>set post. record_score U ws x \<le> record_score U ws r"
  shows "fst (scan_records U ws (pre @ r # post) (None, 0)) = Some r"
proof -
  obtain b s where st: "scan_records U ws pre (None, 0) = (b, s)"
    by (cases "scan_records U ws pre (None, 0)")
  from pos before have "snd (scan_records U ws pre (None, 0)) < record_score U ws r"
    by (rule scan_records_below)
  with st have "s < record_score U ws r" by simp
  then have "scan_records U ws (r # post) (b, s) =
      scan_records U ws post (Some r, record_score U ws r)"
    by (simp add: Let_def)
  also from after have "\<dots> = (Some r, record_score U ws r)"
    by (rule scan_records_keep)
  finally show ?thesis
    using st by (simp add: scan_records_append)
qed

lemma record_score_no_words: "record_score U [] r = 0"
  by (simp add: record_score_def)

lemma search_passage_Some:
  assumes "search_passage U DATA q = Some r"
  shows "r \<in> set DATA \<and> 0 < record_score U (findall_words U (lower U q)) r"
proof -
  from assms
  have "fst (scan_records U (findall_words U (lower U q)) DATA (None, 0)) = Some r"
    by (simp add: search_passage_def Let_def split: if_splits)
  from scan_records_Some [OF this] show ?thesis by simp
qed

lemma search_passage_no_data: "search_passage U [] q = None"
  by (simp add: search_passage_def Let_def)

lemma search_passage_no_words:
  "findall_words U (lower U q) = [] \<Longrightarrow> search_passage U DATA q = None"
  by (simp add: search_passage_def)

section \<open>Facts about the handler\<close>

lemma ask_question:
  "map_of d (str ''question'') = Some (JStr q) \<Longrightarrow>
   ask U DATA (Some (JObj d)) =
     (case search_passage U DATA (strip U q) of
        None \<Rightarrow> Inr apology
      | Some rec \<Rightarrow> if rec \<noteq> [] then format_answer rec else Inr apology)"
  by (cases d) (auto simp: ask_def)


section \<open>Facts about the score and the ASCII tables\<close>

text \<open>The definitions that running the matcher on a concrete input unfolds.\<close>

lemmas run_simps = findall_words_def latin_tables_def latin_word_def ascii_word_def
  ascii_lower_def str_def record_score_def comparison_text_def dict_get_def str_count_def

lemma ascii_tables_sel:
  "is_word ascii_tables = ascii_word" "is_space ascii_tables = ascii_space"
  "lower ascii_tables = map ascii_lower"
  by (simp_all add: ascii_tables_def)

lemma comparison_text_split:
  assumes "\<forall>a b. lower U (a @ 32 # b) = lower U a @ 32 # lower U b"
  shows "comparison_text U r =
     lower U (fmt (dict_get r (str ''translation'') (Text (str '''')))) @ 32 #
     lower U (fmt (dict_get r (str ''purport'') (Text (str ''''))))"
  using assms by (simp add: comparison_text_def str_space)

lemma str_count_comparison_text:
  assumes "\<not> is_word U 32"
    and "\<forall>a b. lower U (a @ 32 # b) = lower U a @ 32 # lower U b"
    and "w \<in> set (findall_words U s)"
  shows "str_count (comparison_text U r) w =
     str_count (lower U (fmt (dict_get r (str ''translation'') (Text (str ''''))))) w +
     str_count (lower U (fmt (dict_get r (str ''purport'') (Text (str ''''))))) w"
proof -
  from assms(1,3) have "w \<noteq> []" "32 \<notin> set w"
    using findall_words_word [of w U s] by auto
  then show ?thesis
    unfolding comparison_text_split [OF assms(2)] by (rule str_count_sep)
qed

lemma record_score_empty_record:
  assumes "\<not> is_word U 32" and "lower U [32] = [32]"
  shows "record_score U (findall_words U s) [] = 0"
proof -
  have "str_count (comparison_text U []) w = 0" if "w \<in> set (findall_words U s)" for w
  proof -
    from that assms(1) have w: "w \<noteq> []" "32 \<notin> set w"
      using findall_words_word [of w U s] by auto
    have "comparison_text U [] = [] @ 32 # []"
      using assms(2) by (simp add: comparison_text_def dict_get_def str_space)
    with w show ?thesis
      using str_count_sep [of w 32 "[]" "[]"] by (simp add: str_count_def)
  qed
  then show ?thesis
    by (simp add: record_score_def)
qed

section \<open>The claims\<close>

text \<open>
  C1: for every query and every dataset, the score of a record is the sum, over the
  query words, of the count of the word in the lowercased text "translation purport";
  the count of a query word is 0 in a text that does not hold it as a substring, and one
  more than the count behind its first occurrence otherwise (occurrences are counted
  from the left and do not overlap). A record that scores strictly more than every other
  record of the dataset is the one returned (none when that score is 0), and none is
  returned when no record scores above 0.
\<close>

theorem search_passage_unique_maximum:
  "record_score U (findall_words U (lower U q)) r =
     (\<Sum>w\<leftarrow>findall_words U (lower U q).
        str_count (lower U (fmt (dict_get r (str ''translation'') (Text (str ''''))) @ str '' ''
                            @ fmt (dict_get r (str ''purport'') (Text (str ''''))))) w)
   \<and> (\<forall>w\<in>set (findall_words U (lower U q)). \<forall>s.
          \<not> (\<exists>a b. s = a @ w @ b) \<longrightarrow> str_count s w = 0)
   \<and> (\<forall>w\<in>set (findall_words U (lower U q)). \<forall>a b.
          (\<forall>a' b'. a @ w @ b = a' @ w @ b' \<longrightarrow> length a \<le> length a')
          \<longrightarrow> str_count (a @ w @ b) w = Suc (str_count b w))
   \<and> ((\<forall>x\<in>set pre \<union> set post.
          record_score U (findall_words U (lower U q)) x
            < record_score U (findall_words U (lower U q)) r)
        \<longrightarrow> search_passage U (pre @ r # post) q =
              (if record_score U (findall_words U (lower U q)) r = 0 then None else Some r))
   \<and> ((\<forall>x\<in>set DATA. record_score U (findall_words U (lower U q)) x = 0)
        \<longrightarrow> search_passage U DATA q = None)"
proof (intro conjI impI ballI allI)
  let ?ws = "findall_words U (lower U q)"
  show "record_score U ?ws r =
     (\<Sum>w\<leftarrow>?ws.
        str_count (lower U (fmt (dict_get r (str ''translation'') (Text (str ''''))) @ str '' ''
                            @ fmt (dict_get r (str ''purport'') (Text (str ''''))))) w)"
    by (simp add: record_score_def comparison_text_def)
next
  fix w s
  assume "w \<in> set (findall_words U (lower U q))" and "\<not> (\<exists>a b. s = a @ w @ b)"
  then show "str_count s w = 0"
    using findall_words_word [of w U "lower U q"] count_from_absent [of s w]
    by (simp add: str_count_def)
next
  fix w a b
  assume "w \<in> set (findall_words U (lower U q))"
    and "\<forall>a' b'. a @ w @ b = a' @ w @ b' \<longrightarrow> length a \<le> length a'"
  then show "str_count (a @ w @ b) w = Suc (str_count b w)"
    using findall_words_word [of w U "lower U q"] count_from_first [of w a b]
    by (simp add: str_count_def)
next
  let ?ws = "findall_words U (lower U q)"
  assume less: "\<forall>x\<in>set pre \<union> set post. record_score U ?ws x < record_score U ?ws r"
  show "search_passage U (pre @ r # post) q =
      (if record_score U ?ws r = 0 then None else Some r)"
  proof (cases "record_score U ?ws r = 0")
    case True
    with less have none: "\<And>x. x \<notin> set pre \<union> set post" by auto
    have "pre = []"
      using none by (cases pre) (auto dest: spec)
    moreover have "post = []"
      using none by (cases post) (auto dest: spec)
    ultimately have "pre = []" "post = []" by simp_all
    with True show ?thesis
      by (simp add: search_passage_def Let_def)
  next
    case False
    then have "?ws \<noteq> []"
      using record_score_no_words [of U r] by auto
    moreover from False less
    have "fst (scan_records U ?ws (pre @ r # post) (None, 0)) = Some r"
      by (intro scan_records_pick) (auto intro: less_imp_le)
    ultimately show ?thesis
      using False by (simp add: search_passage_def Let_def)
  qed
next
  let ?ws = "findall_words U (lower U q)"
  assume "\<forall>x\<in>set DATA. record_score U ?ws x = 0"
  then have "\<forall>x\<in>set DATA. record_score U ?ws x \<le> 0" by simp
  then have "scan_records U ?ws DATA (None, 0) = (None, 0)"
    by (rule scan_records_keep)
  then show "search_passage U DATA q = None"
    by (simp add: search_passage_def Let_def)
qed

text \<open>
  C1 with two records and the query \<^verbatim>\<open>What is YOGA?\<close>, three words after lowercasing: the
  records score 2 and 5 and the second is returned; the query \<^verbatim>\<open>moksha\<close> returns none;
  the query \<^verbatim>\<open>aa art\<close> scores 3 on the text \<^verbatim>\<open>heart aaaaa\<close> (a word inside a longer
  word, and occurrences that do not overlap). A name written with three letters beyond
  ASCII is one query word, and returns the record that holds the name, not the record
  that holds its ASCII letters.
\<close>

theorem search_passage_unique_maximum_witness:
  "findall_words ascii_tables (lower ascii_tables (str ''What is YOGA?''))
     = [str ''what'', str ''is'', str ''yoga''] \<and>
   record_score ascii_tables (findall_words ascii_tables (lower ascii_tables (str ''What is YOGA?'')))
     [(str ''translation'', Text (str ''Yoga is the path''))] = 2 \<and>
   record_score ascii_tables (findall_words ascii_tables (lower ascii_tables (str ''What is YOGA?'')))
     [(str ''translation'', Text (str ''What is yoga? Yoga.'')), (str ''purport'', Text (str ''bhakti-yoga''))]
     = 5 \<and>
   search_passage ascii_tables
     [[(str ''translation'', Text (str ''Yoga is the path''))],
      [(str ''translation'', Text (str ''What is yoga? Yoga.'')), (str ''purport'', Text (str ''bhakti-yoga''))]]
     (str ''What is YOGA?'')
     = Some [(str ''translation'', Text (str ''What is yoga? Yoga.'')),
             (str ''purport'', Text (str ''bhakti-yoga''))] \<and>
   search_passage ascii_tables
     [[(str ''translation'', Text (str ''Yoga is the path''))],
      [(str ''translation'', Text (str ''What is yoga? Yoga.'')), (str ''purport'', Text (str ''bhakti-yoga''))]]
     (str ''moksha'')
     = None \<and>
   record_score ascii_tables (findall_words ascii_tables (lower ascii_tables (str ''aa art'')))
     [(str ''translation'', Text (str ''Heart'')), (str ''purport'', Text (str ''aaaaa''))] = 3 \<and>
   findall_words latin_tables (lower latin_tables (str ''K'' @ [7771, 7779, 7751] @ str ''a''))
     = [str ''k'' @ [7771, 7779, 7751] @ str ''a''] \<and>
   search_passage latin_tables
     [[(str ''translation'', Text (str ''a cat k''))],
      [(str ''translation'', Text (str ''K'' @ [7771, 7779, 7751] @ str ''a''))]]
     (str ''K'' @ [7771, 7779, 7751] @ str ''a'')
     = Some [(str ''translation'', Text (str ''K'' @ [7771, 7779, 7751] @ str ''a''))]"
proof -
  let ?k = "str ''K'' @ [7771, 7779, 7751] @ str ''a''"
  let ?c = "[(str ''translation'', Text (str ''a cat k''))]"
  let ?d = "[(str ''translation'', Text (str ''K'' @ [7771, 7779, 7751] @ str ''a''))]"
  have kw: "findall_words latin_tables (lower latin_tables ?k) = [str ''k'' @ [7771, 7779, 7751] @ str ''a'']"
    by (simp add: run_simps)
  have kc: "record_score latin_tables (findall_words latin_tables (lower latin_tables ?k)) ?c = 0"
    by (simp add: run_simps)
  have kd: "record_score latin_tables (findall_words latin_tables (lower latin_tables ?k)) ?d = 1"
    by (simp add: run_simps)
  from search_passage_unique_maximum [of latin_tables ?k ?d "[?c]" "[]" "[]"] kc kd
  have 3: "search_passage latin_tables [?c, ?d] ?k = Some ?d" by simp
  let ?q = "str ''What is YOGA?''"
  let ?a = "[(str ''translation'', Text (str ''Yoga is the path''))]"
  let ?b = "[(str ''translation'', Text (str ''What is yoga? Yoga.'')),
             (str ''purport'', Text (str ''bhakti-yoga''))]"
  have w: "findall_words ascii_tables (lower ascii_tables ?q) = [str ''what'', str ''is'', str ''yoga'']"
    by code_simp
  have a: "record_score ascii_tables (findall_words ascii_tables (lower ascii_tables ?q)) ?a = 2"
    by code_simp
  have b: "record_score ascii_tables (findall_words ascii_tables (lower ascii_tables ?q)) ?b = 5"
    by code_simp
  have a0: "record_score ascii_tables (findall_words ascii_tables (lower ascii_tables (str ''moksha''))) ?a = 0"
    by code_simp
  have b0: "record_score ascii_tables (findall_words ascii_tables (lower ascii_tables (str ''moksha''))) ?b = 0"
    by code_simp
  have c: "record_score ascii_tables (findall_words ascii_tables (lower ascii_tables (str ''aa art'')))
     [(str ''translation'', Text (str ''Heart'')), (str ''purport'', Text (str ''aaaaa''))] = 3"
    by code_simp
  from search_passage_unique_maximum [of ascii_tables ?q ?b "[?a]" "[]" "[]"] a b
  have 1: "search_passage ascii_tables [?a, ?b] ?q = Some ?b" by simp
  from search_passage_unique_maximum [of ascii_tables "str ''moksha''" ?b "[]" "[]" "[?a, ?b]"] a0 b0
  have 2: "search_passage ascii_tables [?a, ?b] (str ''moksha'') = None" by simp
  from w a b c 1 2 kw 3 show ?thesis by simp
qed

text \<open>
  C2: absent fields read as empty text in the matcher and in the formatter. The matcher
  does so; the formatter does not: a record without a purport is matched on its
  translation and then formatting it raises \<^verbatim>\<open>KeyError\<close>, as does a matched record
  without a book.
\<close>

theorem missing_field_raises:
  "search_passage ascii_tables [[(str ''translation'', Text (str ''yoga''))]] (str ''yoga'')
     = Some [(str ''translation'', Text (str ''yoga''))] \<and>
   ask ascii_tables [[(str ''translation'', Text (str ''yoga''))]]
       (Some (JObj [(str ''question'', JStr (str ''yoga''))]))
     = Inl (KeyError (str ''purport'')) \<and>
   ask ascii_tables [[(str ''translation'', Text (str ''yoga'')), (str ''purport'', Text (str ''bhakti''))]]
       (Some (JObj [(str ''question'', JStr (str ''yoga''))]))
     = Inl (KeyError (str ''book''))"
  by code_simp




text \<open>
  C4 as stated fails when the maximum score is 0: two records tie at score 0 for the
  query \<^verbatim>\<open>yoga\<close>, and none is returned, not the earlier record.
\<close>

theorem tie_at_zero_returns_none:
  "record_score ascii_tables (findall_words ascii_tables (lower ascii_tables (str ''yoga'')))
     [(str ''translation'', Text (str ''karma''))] = 0 \<and>
   record_score ascii_tables (findall_words ascii_tables (lower ascii_tables (str ''yoga'')))
     [(str ''translation'', Text (str ''dharma''))] = 0 \<and>
   search_passage ascii_tables
     [[(str ''translation'', Text (str ''karma''))], [(str ''translation'', Text (str ''dharma''))]]
     (str ''yoga'')
     \<noteq> Some [(str ''translation'', Text (str ''karma''))] \<and>
   search_passage ascii_tables
     [[(str ''translation'', Text (str ''karma''))], [(str ''translation'', Text (str ''dharma''))]]
     (str ''yoga'')
     = None"
  by code_simp

text \<open>
  C4, amended: when the maximum score is at least 1, \<open>search_passage\<close> returns the
  earliest record attaining it: a record of positive score, with only lower scores before
  it and no higher score after it, is returned.
\<close>

theorem search_passage_earliest_maximum:
  assumes "0 < record_score U (findall_words U (lower U q)) r"
    and "\<forall>x\<in>set pre. record_score U (findall_words U (lower U q)) x
           < record_score U (findall_words U (lower U q)) r"
    and "\<forall>x\<in>set post. record_score U (findall_words U (lower U q)) x
           \<le> record_score U (findall_words U (lower U q)) r"
  shows "search_passage U (pre @ r # post) q = Some r"
proof -
  from assms(1) have "findall_words U (lower U q) \<noteq> []"
    using record_score_no_words [of U r] by auto
  moreover from assms
  have "fst (scan_records U (findall_words U (lower U q)) (pre @ r # post) (None, 0)) = Some r"
    by (rule scan_records_pick)
  ultimately show ?thesis
    by (simp add: search_passage_def Let_def)
qed

text \<open>
  C4, amended, with two records tied at score 1 behind a record of score 0; and with a
  query word that starts with a letter beyond ASCII, which scores 0 on the record holding
  only its ASCII letters.
\<close>

theorem search_passage_earliest_maximum_witness:
  "search_passage ascii_tables
     [[(str ''translation'', Text (str ''karma''))],
      [(str ''translation'', Text (str ''yoga''))],
      [(str ''purport'', Text (str ''Yoga''))]] (str ''What is yoga?'')
     = Some [(str ''translation'', Text (str ''yoga''))] \<and>
   record_score ascii_tables (findall_words ascii_tables (lower ascii_tables (str ''What is yoga?'')))
       [(str ''translation'', Text (str ''yoga''))] =
   record_score ascii_tables (findall_words ascii_tables (lower ascii_tables (str ''What is yoga?'')))
       [(str ''purport'', Text (str ''Yoga''))] \<and>
   search_passage latin_tables
     [[(str ''translation'', Text (str ''ta''))], [(str ''translation'', Text (7771 # str ''ta''))]]
     (7771 # str ''ta'')
     = Some [(str ''translation'', Text (7771 # str ''ta''))]"
proof -
  let ?k = "7771 # str ''ta''"
  let ?c = "[(str ''translation'', Text (str ''ta''))]"
  let ?d = "[(str ''translation'', Text (7771 # str ''ta''))]"
  have kc: "record_score latin_tables (findall_words latin_tables (lower latin_tables ?k)) ?c = 0"
    by (simp add: run_simps)
  have kd: "record_score latin_tables (findall_words latin_tables (lower latin_tables ?k)) ?d = 1"
    by (simp add: run_simps)
  from search_passage_earliest_maximum [of latin_tables ?k ?d "[?c]" "[]"] kc kd
  have 2: "search_passage latin_tables [?c, ?d] ?k = Some ?d" by simp
  let ?q = "str ''What is yoga?''"
  let ?z = "[(str ''translation'', Text (str ''karma''))]"
  let ?a = "[(str ''translation'', Text (str ''yoga''))]"
  let ?b = "[(str ''purport'', Text (str ''Yoga''))]"
  have z: "record_score ascii_tables (findall_words ascii_tables (lower ascii_tables ?q)) ?z = 0"
    by code_simp
  have a: "record_score ascii_tables (findall_words ascii_tables (lower ascii_tables ?q)) ?a = 1"
    by code_simp
  have b: "record_score ascii_tables (findall_words ascii_tables (lower ascii_tables ?q)) ?b = 1"
    by code_simp
  from search_passage_earliest_maximum [of ascii_tables ?q ?a "[?z]" "[?b]"] z a b
  have "search_passage ascii_tables [?z, ?a, ?b] ?q = Some ?a" by simp
  with a b 2 show ?thesis by simp
qed

text \<open>
  C5: a query without any word character makes \<open>search_passage\<close> return none, and
  the handler answers such a question with the apology, whatever the dataset holds. The
  fact of Python's tables used: lowercasing a string without word characters gives a
  string without word characters.
\<close>

theorem no_word_query_apology:
  assumes "\<forall>s. (\<forall>c\<in>set s. \<not> is_word U c) \<longrightarrow> (\<forall>c\<in>set (lower U s). \<not> is_word U c)"
    and "\<forall>c\<in>set q. \<not> is_word U c"
  shows "search_passage U DATA q = None \<and>
         ask U DATA (Some (JObj [(str ''question'', JStr q)])) = Inr apology"
proof -
  from assms(2) have "\<forall>c\<in>set (strip U q). \<not> is_word U c"
    using strip_subset [of U q] by auto
  with assms(1) have "\<forall>c\<in>set (lower U (strip U q)). \<not> is_word U c"
    by blast
  then have "search_passage U DATA (strip U q) = None"
    by (intro search_passage_no_words findall_words_no_word)
  moreover from assms have "\<forall>c\<in>set (lower U q). \<not> is_word U c"
    by blast
  then have "search_passage U DATA q = None"
    by (intro search_passage_no_words findall_words_no_word)
  ultimately show ?thesis
    by (simp add: ask_question)
qed

text \<open>C5 at the question \<^verbatim>\<open>" ?!. "\<close>, on a dataset with one record.\<close>

theorem no_word_query_apology_witness:
  "\<not> (\<exists>c\<in>set (str '' ?!. ''). is_word ascii_tables c) \<and>
   search_passage ascii_tables [[(str ''translation'', Text (str ''yoga''))]] (str '' ?!. '') = None \<and>
   ask ascii_tables [[(str ''translation'', Text (str ''yoga''))]]
     (Some (JObj [(str ''question'', JStr (str '' ?!. ''))])) = Inr apology"
proof -
  have t: "\<forall>s. (\<forall>c\<in>set s. \<not> is_word ascii_tables c)
      \<longrightarrow> (\<forall>c\<in>set (lower ascii_tables s). \<not> is_word ascii_tables c)"
    by (simp add: ascii_tables_sel ascii_word_lower)
  have h: "\<forall>c\<in>set (str '' ?!. ''). \<not> is_word ascii_tables c"
    by (simp add: ascii_tables_sel ascii_word_def str_def)
  from no_word_query_apology [OF t h, of "[[(str ''translation'', Text (str ''yoga''))]]"] h
  show ?thesis by simp
qed

text \<open>
  C6: when the dataset file does not exist the loader yields the empty list and no error,
  and with that dataset every question, whatever its content, finds no record and gets
  the apology answer from the handler.
\<close>

theorem missing_file_always_apology:
  "\<exists>DATA. load_data FileMissing = Inr DATA \<and> DATA = [] \<and>
     (\<forall>U q. search_passage U DATA q = None \<and>
          ask U DATA (Some (JObj [(str ''question'', JStr q)])) = Inr apology)"
  by (simp add: load_data_def search_passage_no_data ask_question)

text \<open>
  C7: when the query's words are one word repeated \<open>k\<close> times, \<open>k\<close> at least 1,
  every record scores \<open>k\<close> times what it scores for that word alone, and the same
  record is returned as for the word alone.
\<close>

theorem repeated_word_query:
  assumes "findall_words U (lower U q) = replicate k w"
    and "0 < k"
    and "findall_words U (lower U q1) = [w]"
  shows "record_score U (findall_words U (lower U q)) r
           = k * record_score U (findall_words U (lower U q1)) r \<and>
         search_passage U DATA q = search_passage U DATA q1"
proof -
  have sc: "\<forall>r. record_score U (replicate k w) r = k * record_score U [w] r"
    by (simp add: record_score_replicate)
  from scan_records_scale [OF sc assms(2), of DATA None 0]
  have "fst (scan_records U (replicate k w) DATA (None, 0)) = fst (scan_records U [w] DATA (None, 0))"
    by simp
  moreover from assms(2) have "replicate k w \<noteq> []" by simp
  ultimately have "search_passage U DATA q = search_passage U DATA q1"
    using assms(1,3) by (simp add: search_passage_def Let_def)
  with sc assms(1,3) show ?thesis by simp
qed

text \<open>C7 with the queries \<^verbatim>\<open>dharma dharma\<close> and \<^verbatim>\<open>Dharma\<close>.\<close>

theorem repeated_word_query_witness:
  "findall_words ascii_tables (lower ascii_tables (str ''dharma dharma'')) = replicate 2 (str ''dharma'') \<and>
   findall_words ascii_tables (lower ascii_tables (str ''Dharma'')) = [str ''dharma''] \<and>
   record_score ascii_tables (findall_words ascii_tables (lower ascii_tables (str ''Dharma'')))
     [(str ''translation'', Text (str ''Dharma, dharma and dharma'')), (str ''purport'', Text (str ''''))] = 3 \<and>
   record_score ascii_tables (findall_words ascii_tables (lower ascii_tables (str ''dharma dharma'')))
     [(str ''translation'', Text (str ''Dharma, dharma and dharma'')), (str ''purport'', Text (str ''''))] = 6 \<and>
   search_passage ascii_tables
     [[(str ''translation'', Text (str ''Dharma, dharma and dharma'')), (str ''purport'', Text (str ''''))]]
     (str ''dharma dharma'')
     = Some [(str ''translation'', Text (str ''Dharma, dharma and dharma'')), (str ''purport'', Text (str ''''))]"
proof -
  let ?r = "[(str ''translation'', Text (str ''Dharma, dharma and dharma'')), (str ''purport'', Text (str ''''))]"
  have h1: "findall_words ascii_tables (lower ascii_tables (str ''dharma dharma'')) = replicate 2 (str ''dharma'')"
    by code_simp
  have h2: "findall_words ascii_tables (lower ascii_tables (str ''Dharma'')) = [str ''dharma'']"
    by code_simp
  have s1: "record_score ascii_tables (findall_words ascii_tables (lower ascii_tables (str ''Dharma''))) ?r = 3"
    by code_simp
  have r1: "search_passage ascii_tables [?r] (str ''Dharma'') = Some ?r" by code_simp
  from repeated_word_query [OF h1 _ h2, of ?r "[?r]"] h1 h2 s1 r1
  show ?thesis by simp
qed

text \<open>
  C8: a record and the record with translation and purport exchanged score the same for
  every query; no query word spans the space between the two fields, so each word counts
  its occurrences in the translation plus those in the purport. The facts of Python's
  tables used: the space is no word character, and lowercasing two strings joined by a
  space lowercases each of them and keeps the space.
\<close>

theorem score_symmetric_in_fields:
  assumes "\<not> is_word U 32"
    and "\<forall>a b. lower U (a @ 32 # b) = lower U a @ 32 # lower U b"
    and "map_of r' (str ''translation'') = map_of r (str ''purport'')"
    and "map_of r' (str ''purport'') = map_of r (str ''translation'')"
  shows "record_score U (findall_words U (lower U q)) r'
           = record_score U (findall_words U (lower U q)) r \<and>
         (\<forall>w\<in>set (findall_words U (lower U q)).
            str_count (comparison_text U r) w =
              str_count (lower U (fmt (dict_get r (str ''translation'') (Text (str ''''))))) w +
              str_count (lower U (fmt (dict_get r (str ''purport'') (Text (str ''''))))) w)"
proof -
  from assms(3,4)
  have sw: "dict_get r' (str ''translation'') (Text (str '''')) = dict_get r (str ''purport'') (Text (str ''''))"
    "dict_get r' (str ''purport'') (Text (str '''')) = dict_get r (str ''translation'') (Text (str ''''))"
    by (simp_all add: dict_get_def)
  have "str_count (comparison_text U r') w = str_count (comparison_text U r) w"
    if "w \<in> set (findall_words U (lower U q))" for w
    using str_count_comparison_text [OF assms(1,2) that, of r]
      str_count_comparison_text [OF assms(1,2) that, of r'] sw
    by simp
  then have "map (str_count (comparison_text U r')) (findall_words U (lower U q)) =
             map (str_count (comparison_text U r)) (findall_words U (lower U q))"
    by simp
  then have "record_score U (findall_words U (lower U q)) r'
      = record_score U (findall_words U (lower U q)) r"
    unfolding record_score_def by (rule arg_cong [where f = sum_list])
  then show ?thesis
    using str_count_comparison_text [OF assms(1,2), of _ "lower U q" r] by simp
qed

text \<open>C8 with a text held as translation in one record and as purport in the other.\<close>

theorem score_symmetric_in_fields_witness:
  "\<not> is_word ascii_tables 32 \<and>
   map_of [(str ''purport'', Text (str ''Bhakti-yoga'')), (str ''book'', Text (str ''BG''))] (str ''translation'') =
     map_of [(str ''translation'', Text (str ''Bhakti-yoga'')), (str ''book'', Text (str ''BG''))] (str ''purport'') \<and>
   map_of [(str ''purport'', Text (str ''Bhakti-yoga'')), (str ''book'', Text (str ''BG''))] (str ''purport'') =
     map_of [(str ''translation'', Text (str ''Bhakti-yoga'')), (str ''book'', Text (str ''BG''))] (str ''translation'') \<and>
   record_score ascii_tables (findall_words ascii_tables (lower ascii_tables (str ''What is yoga?'')))
       [(str ''purport'', Text (str ''Bhakti-yoga'')), (str ''book'', Text (str ''BG''))] = 1 \<and>
   record_score ascii_tables (findall_words ascii_tables (lower ascii_tables (str ''What is yoga?'')))
       [(str ''translation'', Text (str ''Bhakti-yoga'')), (str ''book'', Text (str ''BG''))] = 1"
proof -
  let ?r = "[(str ''translation'', Text (str ''Bhakti-yoga'')), (str ''book'', Text (str ''BG''))]"
  let ?r' = "[(str ''purport'', Text (str ''Bhakti-yoga'')), (str ''book'', Text (str ''BG''))]"
  have f1: "\<not> is_word ascii_tables 32"
    by (simp add: ascii_tables_sel ascii_word_def)
  have f2: "\<forall>a b. lower ascii_tables (a @ 32 # b) = lower ascii_tables a @ 32 # lower ascii_tables b"
    by (simp add: ascii_tables_sel ascii_lower_def)
  have h1: "map_of ?r' (str ''translation'') = map_of ?r (str ''purport'')" by simp
  have h2: "map_of ?r' (str ''purport'') = map_of ?r (str ''translation'')" by simp
  have s: "record_score ascii_tables (findall_words ascii_tables (lower ascii_tables (str ''What is yoga?''))) ?r = 1"
    by code_simp
  from score_symmetric_in_fields [OF f1 f2 h1 h2, of "str ''What is yoga?''"] s h1 h2 f1
  show ?thesis by simp
qed

text \<open>
  C9: a record returned by \<open>search_passage\<close> has score at least 1 for the query, so
  some query word occurs in its comparison text; it is never the empty record, hence the
  handler's truth test on the result is the test for none. The facts of Python's tables
  used for the empty record: the space is no word character and is its own lowercase.
\<close>

theorem returned_record_scores:
  "(search_passage U DATA q = Some r \<longrightarrow>
      1 \<le> record_score U (findall_words U (lower U q)) r \<and>
      (\<exists>w\<in>set (findall_words U (lower U q)). 1 \<le> str_count (comparison_text U r) w)) \<and>
   (\<not> is_word U 32 \<and> lower U [32] = [32] \<longrightarrow>
      (search_passage U DATA q = Some r \<longrightarrow> r \<noteq> []) \<and>
      (case search_passage U DATA q of None \<Rightarrow> False | Some rec \<Rightarrow> rec \<noteq> [])
        = (search_passage U DATA q \<noteq> None))"
proof -
  have pos: "0 < record_score U (findall_words U (lower U q)) r"
    if "search_passage U DATA q = Some r" for r
    using search_passage_Some [OF that] by simp
  have occ: "\<exists>w\<in>set (findall_words U (lower U q)). 0 < str_count (comparison_text U r) w"
    if "search_passage U DATA q = Some r" for r
    using pos [OF that] unfolding record_score_def by (rule sum_list_pos_elem)
  have ne: "r \<noteq> []"
    if "\<not> is_word U 32" "lower U [32] = [32]" "search_passage U DATA q = Some r" for r
    using pos [OF that(3)] record_score_empty_record [OF that(1,2), of "lower U q"] by auto
  have first: "search_passage U DATA q = Some r \<longrightarrow>
      1 \<le> record_score U (findall_words U (lower U q)) r \<and>
      (\<exists>w\<in>set (findall_words U (lower U q)). 1 \<le> str_count (comparison_text U r) w)"
    using pos occ by (auto simp: Suc_le_eq)
  have second: "\<not> is_word U 32 \<and> lower U [32] = [32] \<longrightarrow>
      (search_passage U DATA q = Some r \<longrightarrow> r \<noteq> []) \<and>
      (case search_passage U DATA q of None \<Rightarrow> False | Some rec \<Rightarrow> rec \<noteq> [])
        = (search_passage U DATA q \<noteq> None)"
    using ne by (cases "search_passage U DATA q") auto
  from first second show ?thesis by blast
qed

text \<open>C9 on a dataset holding the empty record and a record matching the query.\<close>

theorem returned_record_scores_witness:
  "\<not> is_word ascii_tables 32 \<and> lower ascii_tables [32] = [32] \<and>
   search_passage ascii_tables [[], [(str ''purport'', Text (str ''Bhakti-yoga''))]] (str ''Yoga?'')
     = Some [(str ''purport'', Text (str ''Bhakti-yoga''))] \<and>
   1 \<le> record_score ascii_tables (findall_words ascii_tables (lower ascii_tables (str ''Yoga?'')))
          [(str ''purport'', Text (str ''Bhakti-yoga''))] \<and>
   [(str ''purport'', Text (str ''Bhakti-yoga''))] \<noteq> ([] :: passage)"
proof -
  have f1: "\<not> is_word ascii_tables 32"
    by (simp add: ascii_tables_sel ascii_word_def)
  have f2: "lower ascii_tables [32] = [32]"
    by (simp add: ascii_tables_sel ascii_lower_def)
  have h: "search_passage ascii_tables [[], [(str ''purport'', Text (str ''Bhakti-yoga''))]] (str ''Yoga?'')
      = Some [(str ''purport'', Text (str ''Bhakti-yoga''))]"
    by code_simp
  from returned_record_scores [of ascii_tables "[[], [(str ''purport'', Text (str ''Bhakti-yoga''))]]"
      "str ''Yoga?''" "[(str ''purport'', Text (str ''Bhakti-yoga''))]"] h f1 f2
  show ?thesis by simp
qed

text \<open>
  C10: a missing or unparsable body is answered with the apology (the empty string being
  its own lowercase), but some well-formed JSON bodies make the handler raise: an array
  with an element (a list has no \<^verbatim>\<open>get\<close>), and an object whose \<^verbatim>\<open>question\<close> is a number,
  null, a boolean, an array or an object (none of them has \<^verbatim>\<open>strip\<close>).
\<close>

theorem ask_malformed_bodies:
  "(lower U [] = [] \<longrightarrow> ask U DATA None = Inr apology) \<and>
   ask U DATA (Some (JArr (x # xs))) = Inl (AttributeError (str ''get'')) \<and>
   ask U DATA (Some (JObj ((str ''question'', JNum n) # d))) = Inl (AttributeError (str ''strip'')) \<and>
   ask U DATA (Some (JObj ((str ''question'', JNull) # d))) = Inl (AttributeError (str ''strip'')) \<and>
   ask U DATA (Some (JObj ((str ''question'', JBool b) # d))) = Inl (AttributeError (str ''strip'')) \<and>
   ask U DATA (Some (JObj ((str ''question'', JArr ys) # d))) = Inl (AttributeError (str ''strip'')) \<and>
   ask U DATA (Some (JObj ((str ''question'', JObj e) # d))) = Inl (AttributeError (str ''strip''))"
proof -
  have "ask U DATA None = Inr apology" if "lower U [] = []"
  proof -
    from that have "search_passage U DATA (strip U []) = None"
      by (intro search_passage_no_words) (simp add: strip_def findall_words_def)
    then show ?thesis
      by (simp add: ask_def)
  qed
  then show ?thesis
    by (simp add: ask_def)
qed

text \<open>C10 at a missing body, an array holding a string, and a question that is a number.\<close>

theorem ask_malformed_bodies_witness:
  "lower ascii_tables [] = [] \<and>
   ask ascii_tables [[(str ''translation'', Text (str ''yoga''))]] None = Inr apology \<and>
   ask ascii_tables [[(str ''translation'', Text (str ''yoga''))]] (Some (JArr [JStr (str ''yoga'')]))
     = Inl (AttributeError (str ''get'')) \<and>
   ask ascii_tables [[(str ''translation'', Text (str ''yoga''))]]
     (Some (JObj [(str ''question'', JNum 7)])) = Inl (AttributeError (str ''strip''))"
proof -
  have f: "lower ascii_tables [] = []"
    by (simp add: ascii_tables_sel)
  from ask_malformed_bodies [of ascii_tables "[[(str ''translation'', Text (str ''yoga''))]]"
      "JStr (str ''yoga'')" "[]" 7 "[]"] f
  show ?thesis by simp
qed

end
